theory Spec2Isabelle
  imports Main "HOL-Library.Multiset"
begin

section \<open>The team tree of \<^verbatim>\<open>tree_builder.py\<close>\<close>

subsection \<open>Data model\<close>

text \<open>
  \<^verbatim>\<open>EmployeeNode\<close> is a dataclass with a name and two optional children. The
  program only ever links a freshly created node into an empty slot, so the object
  graph below a root is a tree without sharing, and a datatype has the same shape.
  \<^verbatim>\<open>TeamTree\<close> has the single field \<^verbatim>\<open>root\<close>.
\<close>

datatype EmployeeNode =
  EmployeeNode (name: string) (left: "EmployeeNode option") (right: "EmployeeNode option")

record TeamTree =
  root :: "EmployeeNode option"

text \<open>
  Every \<^verbatim>\<open>print\<close> of \<^verbatim>\<open>insert\<close> is one message; the output of a call is the
  list of its messages in the order printed.
  \<^item> \<open>InvalidSide\<close>: the line "Error: side must be 'left' or 'right'."
  \<^item> \<open>NoRoot\<close>: "Error: Cannot insert because the team lead (root) is not set yet."
  \<^item> \<open>SlotOccupied m s c\<close>: "Error: m's S side is already occupied by c.", where
    \<open>S\<close> is the normalised side \<open>s\<close> in upper case
  \<^item> \<open>ManagerNotFound m\<close>: "Error: Manager named 'm' does not exist in the
    current team tree."
\<close>

datatype message =
  InvalidSide
| NoRoot
| SlotOccupied string string string
| ManagerNotFound string

subsection \<open>Normalising the side\<close>

text \<open>
  \<^verbatim>\<open>side.strip().lower()\<close>. A \<open>char\<close> is read as a code point below 256. In that
  range \<^verbatim>\<open>str.strip\<close> removes the characters 9 to 13, 28 to 32, 133 and 160 from
  both ends, and \<^verbatim>\<open>str.lower\<close> adds 32 to the letters 65 to 90, 192 to 214 and 216
  to 222.
\<close>

definition isspace :: "char \<Rightarrow> bool" where
  "isspace c = (of_char c \<in> set [9, 10, 11, 12, 13, 28, 29, 30, 31, 32, 133, 160 :: nat])"

definition strip :: "string \<Rightarrow> string" where
  "strip s = rev (dropWhile isspace (rev (dropWhile isspace s)))"

definition lower_char :: "char \<Rightarrow> char" where
  "lower_char c =
     (let n = (of_char c :: nat)
      in if (65 \<le> n \<and> n \<le> 90) \<or> (192 \<le> n \<and> n \<le> 214) \<or> (216 \<le> n \<and> n \<le> 222)
         then char_of (n + 32) else c)"

definition lower :: "string \<Rightarrow> string" where
  "lower s = map lower_char s"

subsection \<open>Attribute access by name\<close>

text \<open>
  \<^verbatim>\<open>getattr\<close> and \<^verbatim>\<open>setattr\<close> are only reached with the attribute name
  \<^verbatim>\<open>"left"\<close> or \<^verbatim>\<open>"right"\<close> (the guard on \<^verbatim>\<open>side_norm\<close> comes first).
\<close>

definition getattr :: "EmployeeNode \<Rightarrow> string \<Rightarrow> EmployeeNode option" where
  "getattr node attr = (if attr = ''left'' then left node else right node)"

definition setattr :: "EmployeeNode \<Rightarrow> string \<Rightarrow> EmployeeNode \<Rightarrow> EmployeeNode" where
  "setattr node attr v =
     (if attr = ''left'' then EmployeeNode (name node) (Some v) (right node)
      else EmployeeNode (name node) (left node) (Some v))"

subsection \<open>\<^verbatim>\<open>TeamTree.insert\<close>\<close>

text \<open>
  \<open>insert_node\<close> is one frame of \<^verbatim>\<open>insert\<close> whose \<^verbatim>\<open>current_node\<close> is a node
  of a tree with a root. It returns the flag, the node as the frame leaves it, and the
  messages printed. \<open>is_root\<close> is the test \<^verbatim>\<open>current_node is self.root\<close>: it
  holds in the frame started on the root and in no frame started on a child. The
  recursive calls pass \<^verbatim>\<open>side_norm\<close>, and the callee normalises it again.
\<close>

fun insert_node ::
  "string \<Rightarrow> string \<Rightarrow> string option \<Rightarrow> bool \<Rightarrow> EmployeeNode
     \<Rightarrow> bool \<times> EmployeeNode \<times> message list" where
  "insert_node manager_name employee_name side is_root (EmployeeNode n l r) =
     (case side of
        None \<Rightarrow> (False, EmployeeNode n l r, [InvalidSide])
      | Some s \<Rightarrow>
          let side_norm = lower (strip s) in
          if side_norm \<notin> set [''left'', ''right'']
          then (False, EmployeeNode n l r, [InvalidSide])
          else if n = manager_name then
            (case getattr (EmployeeNode n l r) side_norm of
               Some target_child \<Rightarrow>
                 (False, EmployeeNode n l r,
                  [SlotOccupied manager_name side_norm (name target_child)])
             | None \<Rightarrow>
                 (True, setattr (EmployeeNode n l r) side_norm
                          (EmployeeNode employee_name None None), []))
          else
            (case (case l of
                     None \<Rightarrow> (False, None, [])
                   | Some c \<Rightarrow>
                       (case insert_node manager_name employee_name (Some side_norm) False c of
                          (ok, c', out) \<Rightarrow> (ok, Some c', out))) of
               (ok_l, l', out_l) \<Rightarrow>
                 if ok_l then (True, EmployeeNode n l' r, out_l)
                 else
                   (case (case r of
                            None \<Rightarrow> (False, None, [])
                          | Some c \<Rightarrow>
                              (case insert_node manager_name employee_name (Some side_norm) False c of
                                 (ok, c', out) \<Rightarrow> (ok, Some c', out))) of
                      (ok_r, r', out_r) \<Rightarrow>
                        if ok_r then (True, EmployeeNode n l' r', out_l @ out_r)
                        else (False, EmployeeNode n l' r',
                              out_l @ out_r @
                              (if is_root then [ManagerNotFound manager_name] else [])))))"

text \<open>
  The call \<^verbatim>\<open>tree.insert(manager_name, employee_name, side)\<close>, with
  \<^verbatim>\<open>current_node\<close> left at its default: the guards in the order of the source, then
  the frame on the root.
\<close>

definition TeamTree_insert ::
  "TeamTree \<Rightarrow> string \<Rightarrow> string \<Rightarrow> string option \<Rightarrow> bool \<times> TeamTree \<times> message list" where
  "TeamTree_insert self manager_name employee_name side =
     (case side of
        None \<Rightarrow> (False, self, [InvalidSide])
      | Some s \<Rightarrow>
          if lower (strip s) \<notin> set [''left'', ''right'']
          then (False, self, [InvalidSide])
          else
            (case root self of
               None \<Rightarrow> (False, self, [NoRoot])
             | Some current_node \<Rightarrow>
                 (case insert_node manager_name employee_name side True current_node of
                    (ok, node', out) \<Rightarrow> (ok, self\<lparr>root := Some node'\<rparr>, out))))"

subsection \<open>\<^verbatim>\<open>TeamTree.print_tree\<close>\<close>

text \<open>
  The result is the list of printed lines. \<^verbatim>\<open>level\<close> starts at 0 and grows by one
  per call, so it is a natural number.
\<close>

definition print_line :: "nat \<Rightarrow> string \<Rightarrow> string" where
  "print_line level nm = concat (replicate level ''  '') @ ''- '' @ nm"

function print_tree :: "TeamTree \<Rightarrow> EmployeeNode option \<Rightarrow> nat \<Rightarrow> string list" where
  "print_tree self node level =
     (case node of
        None \<Rightarrow>
          if level = 0 then
            (case root self of
               None \<Rightarrow> [''(empty team)'']
             | Some nd \<Rightarrow>
                 print_line level (name nd)
                 # print_tree self (left nd) (level + 1)
                 @ print_tree self (right nd) (level + 1))
          else []
      | Some nd \<Rightarrow>
          print_line level (name nd)
          # print_tree self (left nd) (level + 1)
          @ print_tree self (right nd) (level + 1))"
  by pat_completeness auto
termination
  apply (relation "measure (\<lambda>(self, node, level).
        case node of
          Some nd \<Rightarrow> size nd
        | None \<Rightarrow> (if level = 0 then (case root self of None \<Rightarrow> 0 | Some nd \<Rightarrow> Suc (size nd)) else 0))")
  apply (auto split: option.splits)
  subgoal for self nd c by (cases nd) auto
  subgoal for self nd c by (cases nd) auto
  subgoal for nd by (cases nd) auto
  subgoal for nd c by (cases nd) auto
  subgoal for nd by (cases nd) auto
  subgoal for nd c by (cases nd) auto
  done

subsection \<open>Positions, pre-order and call sequences\<close>

text \<open>
  The guarded recursive call of \<^verbatim>\<open>insert\<close> on a child slot, as \<open>insert_node\<close>
  makes it: nothing happens on an empty slot.
\<close>

definition insert_child ::
  "string \<Rightarrow> string \<Rightarrow> string \<Rightarrow> EmployeeNode option
     \<Rightarrow> bool \<times> EmployeeNode option \<times> message list" where
  "insert_child manager_name employee_name side_norm child =
     (case child of
        None \<Rightarrow> (False, None, [])
      | Some c \<Rightarrow>
          (case insert_node manager_name employee_name (Some side_norm) False c of
             (ok, c', out) \<Rightarrow> (ok, Some c', out)))"

text \<open>
  A position is the list of attribute names followed from a node downwards;
  its length is the distance from that node.
\<close>

fun node_at :: "string list \<Rightarrow> EmployeeNode \<Rightarrow> EmployeeNode option" where
  "node_at [] node = Some node"
| "node_at (a # p) node =
     (case getattr node a of None \<Rightarrow> None | Some c \<Rightarrow> node_at p c)"

fun update_at ::
  "string list \<Rightarrow> (EmployeeNode \<Rightarrow> EmployeeNode) \<Rightarrow> EmployeeNode \<Rightarrow> EmployeeNode" where
  "update_at [] f node = f node"
| "update_at (a # p) f node =
     (case getattr node a of
        None \<Rightarrow> node
      | Some c \<Rightarrow> setattr node a (update_at p f c))"

text \<open>Line 60 of the source: a fresh leaf goes into the slot \<open>side_norm\<close>.\<close>

definition attach :: "string \<Rightarrow> string \<Rightarrow> EmployeeNode \<Rightarrow> EmployeeNode" where
  "attach side_norm employee_name node =
     setattr node side_norm (EmployeeNode employee_name None None)"

text \<open>Node, then left subtree, then right subtree, each node with its position.\<close>

fun preorder :: "EmployeeNode \<Rightarrow> (string list \<times> EmployeeNode) list" where
  "preorder (EmployeeNode n l r) =
     ([], EmployeeNode n l r)
     # map (\<lambda>(p, x). (''left'' # p, x)) (case l of None \<Rightarrow> [] | Some c \<Rightarrow> preorder c)
     @ map (\<lambda>(p, x). (''right'' # p, x)) (case r of None \<Rightarrow> [] | Some c \<Rightarrow> preorder c)"

definition names :: "EmployeeNode \<Rightarrow> string list" where
  "names node = map (\<lambda>(p, x). name x) (preorder node)"

definition first_match ::
  "string \<Rightarrow> EmployeeNode \<Rightarrow> (string list \<times> EmployeeNode) option" where
  "first_match manager_name node =
     find (\<lambda>(p, x). name x = manager_name) (preorder node)"

definition first_match_child ::
  "string \<Rightarrow> EmployeeNode option \<Rightarrow> (string list \<times> EmployeeNode) option" where
  "first_match_child manager_name child = (case child of None \<Rightarrow> None | Some c \<Rightarrow> first_match manager_name c)"

definition num_nodes :: "TeamTree \<Rightarrow> nat" where
  "num_nodes self = (case root self of None \<Rightarrow> 0 | Some nd \<Rightarrow> length (preorder nd))"

text \<open>What \<^verbatim>\<open>print_tree\<close> is expected to print for a node list: one line per entry.\<close>

definition listing :: "(string list \<times> EmployeeNode) list \<Rightarrow> string list" where
  "listing entries = map (\<lambda>(p, x). print_line (length p) (name x)) entries"

text \<open>
  A sequence of \<^verbatim>\<open>insert\<close> calls, each given as (manager, employee, side):
  the tree after the sequence, and whether every call returned \<^verbatim>\<open>True\<close>.
\<close>

fun run_inserts :: "TeamTree \<Rightarrow> (string \<times> string \<times> string option) list \<Rightarrow> TeamTree" where
  "run_inserts self [] = self"
| "run_inserts self ((m, e, s) # calls) =
     run_inserts (fst (snd (TeamTree_insert self m e s))) calls"

fun all_succeed :: "TeamTree \<Rightarrow> (string \<times> string \<times> string option) list \<Rightarrow> bool" where
  "all_succeed self [] = True"
| "all_succeed self ((m, e, s) # calls) =
     (fst (TeamTree_insert self m e s)
      \<and> all_succeed (fst (snd (TeamTree_insert self m e s))) calls)"

text \<open>
  A sequence of calls to the two operations. \<^verbatim>\<open>print_tree\<close> assigns to no field
  of the tree or of a node, so the tree after it is the tree before it.
\<close>

datatype call = Insert string string "string option" | Render

fun run_calls :: "TeamTree \<Rightarrow> call list \<Rightarrow> TeamTree" where
  "run_calls self [] = self"
| "run_calls self (Insert m e s # calls) =
     run_calls (fst (snd (TeamTree_insert self m e s))) calls"
| "run_calls self (Render # calls) = run_calls self calls"

subsection \<open>Counting the calls\<close>

text \<open>
  The number of frames of \<^verbatim>\<open>insert\<close> that one frame on a node opens, itself
  included: the right subtree is entered only when the left search returned
  \<^verbatim>\<open>False\<close>.
\<close>

fun T_insert_node :: "string \<Rightarrow> string \<Rightarrow> string option \<Rightarrow> bool \<Rightarrow> EmployeeNode \<Rightarrow> nat" where
  "T_insert_node manager_name employee_name side is_root (EmployeeNode n l r) =
     (case side of
        None \<Rightarrow> 1
      | Some s \<Rightarrow>
          let side_norm = lower (strip s) in
          if side_norm \<notin> set [''left'', ''right''] then 1
          else if n = manager_name then 1
          else
            1 + (case l of
                   None \<Rightarrow> 0
                 | Some c \<Rightarrow> T_insert_node manager_name employee_name (Some side_norm) False c)
              + (if fst (insert_child manager_name employee_name side_norm l) then 0
                 else (case r of
                         None \<Rightarrow> 0
                       | Some c \<Rightarrow>
                           T_insert_node manager_name employee_name (Some side_norm) False c)))"

definition T_TeamTree_insert :: "TeamTree \<Rightarrow> string \<Rightarrow> string \<Rightarrow> string option \<Rightarrow> nat" where
  "T_TeamTree_insert self manager_name employee_name side =
     (case side of
        None \<Rightarrow> 1
      | Some s \<Rightarrow>
          if lower (strip s) \<notin> set [''left'', ''right''] then 1
          else
            (case root self of
               None \<Rightarrow> 1
             | Some current_node \<Rightarrow>
                 T_insert_node manager_name employee_name side True current_node))"

text \<open>The number of calls of \<^verbatim>\<open>print_tree\<close> that one call opens, itself included.\<close>

function T_print_tree :: "TeamTree \<Rightarrow> EmployeeNode option \<Rightarrow> nat \<Rightarrow> nat" where
  "T_print_tree self node level =
     (case node of
        None \<Rightarrow>
          if level = 0 then
            (case root self of
               None \<Rightarrow> 1
             | Some nd \<Rightarrow>
                 1 + T_print_tree self (left nd) (level + 1)
                   + T_print_tree self (right nd) (level + 1))
          else 1
      | Some nd \<Rightarrow>
          1 + T_print_tree self (left nd) (level + 1)
            + T_print_tree self (right nd) (level + 1))"
  by pat_completeness auto
termination
  apply (relation "measure (\<lambda>(self, node, level).
        case node of
          Some nd \<Rightarrow> size nd
        | None \<Rightarrow> (if level = 0 then (case root self of None \<Rightarrow> 0 | Some nd \<Rightarrow> Suc (size nd)) else 0))")
  apply (auto split: option.splits)
  subgoal for self nd c by (cases nd) auto
  subgoal for self nd c by (cases nd) auto
  subgoal for nd by (cases nd) auto
  subgoal for nd c by (cases nd) auto
  subgoal for nd by (cases nd) auto
  subgoal for nd c by (cases nd) auto
  done

section \<open>Properties\<close>

subsection \<open>One frame of the search\<close>

declare insert_node.simps [simp del]
declare T_insert_node.simps [simp del]

lemma norm_left: "lower (strip ''left'') = ''left''" by code_simp
lemma norm_right: "lower (strip ''right'') = ''right''" by code_simp

lemma norm_idem: "sn = ''left'' \<or> sn = ''right'' \<Longrightarrow> lower (strip sn) = sn"
  using norm_left norm_right by auto

lemma insert_node_valid:
  assumes "lower (strip s) = sn" and "sn = ''left'' \<or> sn = ''right''"
  shows "insert_node m e (Some s) b (EmployeeNode n l r) =
     (if n = m then
        (case getattr (EmployeeNode n l r) sn of
           Some target_child \<Rightarrow>
             (False, EmployeeNode n l r, [SlotOccupied m sn (name target_child)])
         | None \<Rightarrow> (True, attach sn e (EmployeeNode n l r), []))
      else
        (case insert_child m e sn l of
           (ok_l, l', out_l) \<Rightarrow>
             if ok_l then (True, EmployeeNode n l' r, out_l)
             else
               (case insert_child m e sn r of
                  (ok_r, r', out_r) \<Rightarrow>
                    if ok_r then (True, EmployeeNode n l' r', out_l @ out_r)
                    else (False, EmployeeNode n l' r',
                          out_l @ out_r @ (if b then [ManagerNotFound m] else [])))))"
proof -
  have mem: "(sn \<notin> set [''left'', ''right'']) = False" using assms(2) by auto
  show ?thesis
    unfolding insert_node.simps insert_child_def option.case Let_def assms(1) mem if_False attach_def ..
qed

lemma insert_node_norm:
  assumes "lower (strip s) = sn" and "sn = ''left'' \<or> sn = ''right''"
  shows "insert_node m e (Some s) b node = insert_node m e (Some sn) b node"
proof (cases node)
  case (EmployeeNode n l r)
  show ?thesis unfolding EmployeeNode
    by (simp only: insert_node_valid[OF assms] insert_node_valid[OF norm_idem[OF assms(2)] assms(2)])
qed

lemma insert_node_fail_unchanged:
  assumes v: "sn = ''left'' \<or> sn = ''right''"
  shows "insert_node m e (Some sn) b node = (False, node', out) \<Longrightarrow> node' = node"
proof (induction node arbitrary: b node' out)
  case (EmployeeNode n l r)
  note eq = insert_node_valid[OF norm_idem[OF v] v]
  have cl: "c' = l" if "insert_child m e sn l = (False, c', o1)" for c' o1
  proof (cases l)
    case None with that show ?thesis by (simp add: insert_child_def)
  next
    case (Some c)
    obtain ok c2 o2 where r: "insert_node m e (Some sn) False c = (ok, c2, o2)"
      by (cases "insert_node m e (Some sn) False c")
    with that Some have "ok = False" "c' = Some c2" by (simp_all add: insert_child_def)
    with EmployeeNode.IH(1)[of c False c2 o2] r Some show ?thesis by simp
  qed
  have cr: "c' = r" if "insert_child m e sn r = (False, c', o1)" for c' o1
  proof (cases r)
    case None with that show ?thesis by (simp add: insert_child_def)
  next
    case (Some c)
    obtain ok c2 o2 where r: "insert_node m e (Some sn) False c = (ok, c2, o2)"
      by (cases "insert_node m e (Some sn) False c")
    with that Some have "ok = False" "c' = Some c2" by (simp_all add: insert_child_def)
    with EmployeeNode.IH(2)[of c False c2 o2] r Some show ?thesis by simp
  qed
  show ?case
  proof (cases "n = m")
    case True
    with EmployeeNode.prems show ?thesis
      by (simp add: eq split: option.splits)
  next
    case False
    obtain okl l' outl where L: "insert_child m e sn l = (okl, l', outl)"
      by (cases "insert_child m e sn l")
    obtain okr r' outr where R: "insert_child m e sn r = (okr, r', outr)"
      by (cases "insert_child m e sn r")
    from EmployeeNode.prems False L R have "okl = False" "okr = False" "node' = EmployeeNode n l' r'"
      by (simp_all add: eq split: if_splits)
    with cl[of l' outl] cr[of r' outr] L R show ?thesis by simp
  qed
qed

lemma find_append_case:
  "find P (xs @ ys) = (case find P xs of None \<Rightarrow> find P ys | Some x \<Rightarrow> Some x)"
  by (induction xs) auto

lemma find_map_prefix:
  "find (\<lambda>(p, x). Q x) (map (\<lambda>(p, x). (a # p, x)) xs) =
   map_option (\<lambda>(p, x). (a # p, x)) (find (\<lambda>(p, x). Q x) xs)"
  by (induction xs) auto

lemma first_match_node:
  "first_match m (EmployeeNode n l r) =
     (if n = m then Some ([], EmployeeNode n l r)
      else (case first_match_child m l of
              Some (p, x) \<Rightarrow> Some (''left'' # p, x)
            | None \<Rightarrow>
                (case first_match_child m r of
                   Some (p, x) \<Rightarrow> Some (''right'' # p, x)
                 | None \<Rightarrow> None)))"
  by (auto simp: first_match_def first_match_child_def find_append_case find_map_prefix
           split: option.splits)

lemma first_match_None: "first_match m node = None \<longleftrightarrow> m \<notin> set (names node)"
  by (auto simp: first_match_def names_def find_None_iff)

lemma names_node:
  "names (EmployeeNode n l r) =
     n # (case l of None \<Rightarrow> [] | Some c \<Rightarrow> names c) @ (case r of None \<Rightarrow> [] | Some c \<Rightarrow> names c)"
  by (auto simp: names_def split: option.splits)

lemma insert_node_no_match:
  assumes v: "sn = ''left'' \<or> sn = ''right''"
  shows "m \<notin> set (names node) \<Longrightarrow>
         insert_node m e (Some sn) b node = (False, node, if b then [ManagerNotFound m] else [])"
proof (induction node arbitrary: b)
  case (EmployeeNode n l r)
  note eq = insert_node_valid[OF norm_idem[OF v] v]
  have cl: "insert_child m e sn l = (False, l, [])"
  proof (cases l)
    case None then show ?thesis by (simp add: insert_child_def)
  next
    case (Some c)
    with EmployeeNode.prems have "m \<notin> set (names c)" by (simp add: names_node)
    with EmployeeNode.IH(1)[of c False] Some show ?thesis by (simp add: insert_child_def)
  qed
  have cr: "insert_child m e sn r = (False, r, [])"
  proof (cases r)
    case None then show ?thesis by (simp add: insert_child_def)
  next
    case (Some c)
    with EmployeeNode.prems have "m \<notin> set (names c)" by (simp add: names_node)
    with EmployeeNode.IH(2)[of c False] Some show ?thesis by (simp add: insert_child_def)
  qed
  from EmployeeNode.prems have "n \<noteq> m" by (auto simp: names_node)
  then show ?case by (simp add: eq cl cr)
qed

lemma getattr_left [simp]: "getattr (EmployeeNode n l r) ''left'' = l"
  by (simp add: getattr_def)

lemma getattr_right [simp]: "getattr (EmployeeNode n l r) ''right'' = r"
  by (simp add: getattr_def)

lemma setattr_left [simp]: "setattr (EmployeeNode n l r) ''left'' c = EmployeeNode n (Some c) r"
  by (simp add: setattr_def)

lemma setattr_right [simp]: "setattr (EmployeeNode n l r) ''right'' c = EmployeeNode n l (Some c)"
  by (simp add: setattr_def)

lemma insert_node_first_match:
  assumes v: "sn = ''left'' \<or> sn = ''right''"
  shows "first_match m node = Some (p, x) \<Longrightarrow> getattr x sn = None \<Longrightarrow>
         insert_node m e (Some sn) b node = (True, update_at p (attach sn e) node, [])"
proof (induction node arbitrary: b p)
  case (EmployeeNode n l r)
  note eq = insert_node_valid[OF norm_idem[OF v] v]
  show ?case
  proof (cases "n = m")
    case True
    with EmployeeNode.prems(1) have px: "p = []" "x = EmployeeNode n l r"
      by (simp_all add: first_match_node)
    with EmployeeNode.prems(2) have "getattr (EmployeeNode n l r) sn = None" by simp
    with True px show ?thesis by (simp add: eq)
  next
    case False
    show ?thesis
    proof (cases "first_match_child m l")
      case (Some px)
      obtain q y where px: "px = (q, y)" by (cases px)
      from Some px obtain c where c: "l = Some c" "first_match m c = Some (q, y)"
        by (auto simp: first_match_child_def split: option.splits)
      from EmployeeNode.prems(1) False Some px have p: "p = ''left'' # q" "y = x"
        by (simp_all add: first_match_node)
      from EmployeeNode.IH(1)[of c q False] c p EmployeeNode.prems(2)
      have "insert_child m e sn l = (True, Some (update_at q (attach sn e) c), [])"
        by (simp add: insert_child_def)
      with False c p show ?thesis by (simp add: eq)
    next
      case None
      then have "insert_child m e sn l = (False, l, [])"
        using insert_node_no_match[OF v, of m _ e False]
        by (auto simp: first_match_child_def insert_child_def first_match_None split: option.splits)
      moreover
      from EmployeeNode.prems(1) False None obtain q where
        q: "first_match_child m r = Some (q, x)" "p = ''right'' # q"
        by (auto simp: first_match_node split: option.splits)
      then obtain c where c: "r = Some c" "first_match m c = Some (q, x)"
        by (auto simp: first_match_child_def split: option.splits)
      from EmployeeNode.IH(2)[of c q False] c EmployeeNode.prems(2)
      have "insert_child m e sn r = (True, Some (update_at q (attach sn e) c), [])"
        by (simp add: insert_child_def)
      ultimately show ?thesis using False c q by (simp add: eq)
    qed
  qed
qed

lemma insert_node_success_position:
  assumes v: "sn = ''left'' \<or> sn = ''right''"
  shows "insert_node m e (Some sn) b node = (True, node', out) \<Longrightarrow>
         \<exists>p x. set p \<subseteq> {''left'', ''right''} \<and> node_at p node = Some x \<and> name x = m
                \<and> getattr x sn = None \<and> node' = update_at p (attach sn e) node"
proof (induction node arbitrary: b node' out)
  case (EmployeeNode n l r)
  note eq = insert_node_valid[OF norm_idem[OF v] v]
  show ?case
  proof (cases "n = m")
    case True
    with EmployeeNode.prems have "getattr (EmployeeNode n l r) sn = None"
      "node' = attach sn e (EmployeeNode n l r)"
      by (simp_all add: eq split: option.splits)
    with True have "set [] \<subseteq> {''left'', ''right''} \<and> node_at [] (EmployeeNode n l r) = Some (EmployeeNode n l r)
       \<and> name (EmployeeNode n l r) = m \<and> getattr (EmployeeNode n l r) sn = None
       \<and> node' = update_at [] (attach sn e) (EmployeeNode n l r)" by simp
    then show ?thesis by blast
  next
    case False
    obtain okl l' outl where L: "insert_child m e sn l = (okl, l', outl)"
      by (cases "insert_child m e sn l")
    obtain okr r' outr where R: "insert_child m e sn r = (okr, r', outr)"
      by (cases "insert_child m e sn r")
    show ?thesis
    proof (cases okl)
      case True
      with EmployeeNode.prems False L have n': "node' = EmployeeNode n l' r" by (simp add: eq)
      from L True obtain c c2 where c: "l = Some c" "l' = Some c2"
        "insert_node m e (Some sn) False c = (True, c2, outl)"
        by (auto simp: insert_child_def split: option.splits prod.splits)
      from EmployeeNode.IH(1)[of c False c2 outl] c obtain q x where
        q: "set q \<subseteq> {''left'', ''right''}" "node_at q c = Some x" "name x = m"
           "getattr x sn = None" "c2 = update_at q (attach sn e) c" by auto
      have "set (''left'' # q) \<subseteq> {''left'', ''right''} \<and> node_at (''left'' # q) (EmployeeNode n l r) = Some x
        \<and> name x = m \<and> getattr x sn = None
        \<and> node' = update_at (''left'' # q) (attach sn e) (EmployeeNode n l r)"
        using q c n' by simp
      then show ?thesis by blast
    next
      case okl_False: False
      with L have l': "l' = l" using insert_node_fail_unchanged[OF v, of m e False]
        by (auto simp: insert_child_def split: option.splits prod.splits)
      from EmployeeNode.prems False L R okl_False have okr: "okr" and n': "node' = EmployeeNode n l' r'"
        by (simp_all add: eq split: if_splits)
      from R okr obtain c c2 where c: "r = Some c" "r' = Some c2"
        "insert_node m e (Some sn) False c = (True, c2, outr)"
        by (auto simp: insert_child_def split: option.splits prod.splits)
      from EmployeeNode.IH(2)[of c False c2 outr] c obtain q x where
        q: "set q \<subseteq> {''left'', ''right''}" "node_at q c = Some x" "name x = m"
           "getattr x sn = None" "c2 = update_at q (attach sn e) c" by auto
      have "set (''right'' # q) \<subseteq> {''left'', ''right''} \<and> node_at (''right'' # q) (EmployeeNode n l r) = Some x
        \<and> name x = m \<and> getattr x sn = None
        \<and> node' = update_at (''right'' # q) (attach sn e) (EmployeeNode n l r)"
        using q c n' l' by simp
      then show ?thesis by blast
    qed
  qed
qed

subsection \<open>The top-level call\<close>

lemma norm_up: "lower (strip ''up'') = ''up''" by code_simp

lemma TeamTree_insert_valid:
  assumes "lower (strip s) = sn" and "sn = ''left'' \<or> sn = ''right''"
  shows "TeamTree_insert self m e (Some s) =
     (case root self of
        None \<Rightarrow> (False, self, [NoRoot])
      | Some current_node \<Rightarrow>
          (case insert_node m e (Some sn) True current_node of
             (ok, node', out) \<Rightarrow> (ok, self\<lparr>root := Some node'\<rparr>, out)))"
proof -
  have mem: "(lower (strip s) \<notin> set [''left'', ''right'']) = False" using assms by auto
  show ?thesis
    unfolding TeamTree_insert_def option.case mem if_False
    by (simp add: insert_node_norm[OF assms] split: option.splits)
qed

lemma TeamTree_insert_invalid:
  "lower (strip s) \<noteq> ''left'' \<Longrightarrow> lower (strip s) \<noteq> ''right'' \<Longrightarrow>
   TeamTree_insert self m e (Some s) = (False, self, [InvalidSide])"
  by (simp add: TeamTree_insert_def)


lemma insert_child_None [simp]: "insert_child m e sn None = (False, None, [])"
  by (simp add: insert_child_def)

lemma insert_child_Some:
  "insert_child m e sn (Some c) =
     (case insert_node m e (Some sn) False c of (ok, c', out) \<Rightarrow> (ok, Some c', out))"
  by (simp add: insert_child_def)

lemmas insert_node_left = insert_node_valid[OF norm_left disjI1[OF refl]]
lemmas insert_node_right = insert_node_valid[OF norm_right disjI2[OF refl]]
lemmas TeamTree_insert_left = TeamTree_insert_valid[OF norm_left disjI1[OF refl]]
lemmas TeamTree_insert_right = TeamTree_insert_valid[OF norm_right disjI2[OF refl]]

lemma name_setattr [simp]: "name (setattr node a v) = name node"
  by (simp add: setattr_def)

lemma getattr_setattr:
  "getattr (setattr node a v) b = (if (a = ''left'') = (b = ''left'') then Some v else getattr node b)"
  by (cases node) (auto simp: getattr_def setattr_def)

lemma getattr_same_slot: "(a = ''left'') = (b = ''left'') \<Longrightarrow> getattr node a = getattr node b"
  by (auto simp: getattr_def)

lemma preorder_node_at: "(p, x) \<in> set (preorder node) \<Longrightarrow> node_at p node = Some x"
proof (induction node arbitrary: p)
  case (EmployeeNode n l r)
  from EmployeeNode.prems consider
    (root) "p = []" "x = EmployeeNode n l r"
  | (left) c q where "l = Some c" "p = ''left'' # q" "(q, x) \<in> set (preorder c)"
  | (right) c q where "r = Some c" "p = ''right'' # q" "(q, x) \<in> set (preorder c)"
    by (auto split: option.splits)
  then show ?case
  proof cases
    case root then show ?thesis by simp
  next
    case left with EmployeeNode.IH(1)[of c q] show ?thesis by simp
  next
    case right with EmployeeNode.IH(2)[of c q] show ?thesis by simp
  qed
qed

lemma first_match_node_at:
  "first_match m node = Some (p, x) \<Longrightarrow> node_at p node = Some x \<and> name x = m"
  by (auto simp: first_match_def find_Some_iff dest!: nth_mem intro: preorder_node_at)

lemma node_at_update_at:
  "node_at p node = Some x \<Longrightarrow> node_at p (update_at p f node) = Some (f x)"
proof (induction p arbitrary: node)
  case Nil then show ?case by simp
next
  case (Cons a p)
  then show ?case by (auto simp: getattr_setattr split: option.splits)
qed

lemma getattr_attach: "getattr (attach sn e x) sn = Some (EmployeeNode e None None)"
  by (simp add: attach_def getattr_setattr)

lemma root_update_same: "root self = Some r \<Longrightarrow> self\<lparr>root := Some r\<rparr> = self"
  by (cases self) simp

lemma names_setattr_left:
  "left node = None \<Longrightarrow>
   mset (names (setattr node ''left'' (EmployeeNode e None None))) = add_mset e (mset (names node))"
  by (cases node) (simp add: names_node)

lemma names_setattr_right:
  "right node = None \<Longrightarrow>
   mset (names (setattr node ''right'' (EmployeeNode e None None))) = add_mset e (mset (names node))"
  by (cases node) (simp add: names_node)

lemma names_attach:
  assumes "sn = ''left'' \<or> sn = ''right''" and "getattr x sn = None"
  shows "mset (names (attach sn e x)) = add_mset e (mset (names x))"
  using assms names_setattr_left[of x e] names_setattr_right[of x e]
  by (auto simp: attach_def getattr_def)

lemma names_replace_left:
  "mset (names c') = add_mset e (mset (names c)) \<Longrightarrow>
   mset (names (EmployeeNode n (Some c') r)) = add_mset e (mset (names (EmployeeNode n (Some c) r)))"
  by (simp add: names_node)

lemma names_replace_right:
  "mset (names c') = add_mset e (mset (names c)) \<Longrightarrow>
   mset (names (EmployeeNode n l (Some c'))) = add_mset e (mset (names (EmployeeNode n l (Some c))))"
  by (simp add: names_node)

lemma names_update_at:
  assumes "mset (names (f x)) = add_mset e (mset (names x))"
  shows "set p \<subseteq> {''left'', ''right''} \<Longrightarrow> node_at p node = Some x \<Longrightarrow>
         mset (names (update_at p f node)) = add_mset e (mset (names node))"
proof (induction p arbitrary: node)
  case Nil
  with assms show ?case by simp
next
  case (Cons a p)
  obtain n l r where node: "node = EmployeeNode n l r" by (cases node)
  from Cons.prems(1) consider "a = ''left''" | "a = ''right''" by auto
  then show ?case
  proof cases
    case 1
    with Cons.prems(2) node obtain c where c: "l = Some c" "node_at p c = Some x"
      by (auto split: option.splits)
    from Cons.IH[of c] Cons.prems(1) c
    have "mset (names (update_at p f c)) = add_mset e (mset (names c))" by simp
    from names_replace_left[OF this] 1 node c show ?thesis by simp
  next
    case 2
    with Cons.prems(2) node obtain c where c: "r = Some c" "node_at p c = Some x"
      by (auto split: option.splits)
    from Cons.IH[of c] Cons.prems(1) c
    have "mset (names (update_at p f c)) = add_mset e (mset (names c))" by simp
    from names_replace_right[OF this] 2 node c show ?thesis by simp
  qed
qed

lemma node_at_attach_preserved:
  "node_at q node = Some y \<Longrightarrow> getattr y sn = None \<Longrightarrow> node_at p node = Some x \<Longrightarrow>
   \<exists>x'. node_at p (update_at q (attach sn e) node) = Some x' \<and> name x' = name x"
proof (induction q arbitrary: node p)
  case Nil
  then have y: "y = node" by simp
  show ?case
  proof (cases p)
    case Nil
    with \<open>node_at p node = Some x\<close> show ?thesis by (simp add: attach_def)
  next
    case (Cons b p')
    with Nil.prems(3) obtain d where d: "getattr node b = Some d" "node_at p' d = Some x"
      by (auto split: option.splits)
    with Nil.prems(2) y have "(sn = ''left'') \<noteq> (b = ''left'')"
      using getattr_same_slot[of sn b node] by auto
    with d Cons show ?thesis by (simp add: attach_def getattr_setattr)
  qed
next
  case (Cons a q)
  from Cons.prems(1) obtain c where c: "getattr node a = Some c" "node_at q c = Some y"
    by (auto split: option.splits)
  show ?case
  proof (cases p)
    case Nil
    with Cons.prems(3) c show ?thesis by simp
  next
    case p: (Cons b p')
    with Cons.prems(3) obtain d where d: "getattr node b = Some d" "node_at p' d = Some x"
      by (auto split: option.splits)
    show ?thesis
    proof (cases "(a = ''left'') = (b = ''left'')")
      case True
      with c d have "d = c" using getattr_same_slot[of a b node] by simp
      with Cons.IH[OF c(2) Cons.prems(2), of p'] d
      obtain x' where "node_at p' (update_at q (attach sn e) c) = Some x'" "name x' = name x"
        by auto
      with True c p show ?thesis by (simp add: getattr_setattr)
    next
      case False
      with c d p show ?thesis by (simp add: getattr_setattr)
    qed
  qed
qed

lemma TeamTree_insert_effect:
  assumes "TeamTree_insert self m e side = (ok, self', out)"
  shows "(ok \<longrightarrow>
           (\<exists>s sn r p x. side = Some s \<and> sn = lower (strip s) \<and> (sn = ''left'' \<or> sn = ''right'')
              \<and> root self = Some r \<and> set p \<subseteq> {''left'', ''right''}
              \<and> node_at p r = Some x \<and> name x = m \<and> getattr x sn = None
              \<and> self' = self\<lparr>root := Some (update_at p (attach sn e) r)\<rparr>
              \<and> node_at p (update_at p (attach sn e) r) = Some (attach sn e x)
              \<and> attach sn e x = setattr x sn (EmployeeNode e None None)
              \<and> mset (names (update_at p (attach sn e) r)) = add_mset e (mset (names r))))
       \<and> (\<not> ok \<longrightarrow> self' = self)"
proof (cases "\<exists>s. side = Some s \<and> (lower (strip s) = ''left'' \<or> lower (strip s) = ''right'')")
  case False
  then have "TeamTree_insert self m e side = (False, self, [InvalidSide])"
    by (cases side) (auto simp: TeamTree_insert_def)
  with assms show ?thesis by simp
next
  case True
  then obtain s sn where s: "side = Some s" "lower (strip s) = sn" "sn = ''left'' \<or> sn = ''right''"
    by auto
  note top = TeamTree_insert_valid[OF s(2,3), of self m e]
  show ?thesis
  proof (cases "root self")
    case None
    with assms s top show ?thesis by simp
  next
    case (Some r)
    obtain ok1 r' out1 where res: "insert_node m e (Some sn) True r = (ok1, r', out1)"
      by (cases "insert_node m e (Some sn) True r")
    with assms s top Some have eqs: "ok = ok1" "self' = self\<lparr>root := Some r'\<rparr>" by simp_all
    show ?thesis
    proof (cases ok1)
      case False
      with insert_node_fail_unchanged[OF s(3), of m e True r r' out1] res have "r' = r" by simp
      with eqs False Some show ?thesis by (simp add: root_update_same)
    next
      case True
      with insert_node_success_position[OF s(3), of m e True r r' out1] res
      obtain p x where px: "set p \<subseteq> {''left'', ''right''}" "node_at p r = Some x" "name x = m"
        "getattr x sn = None" "r' = update_at p (attach sn e) r" by auto
      have "mset (names (update_at p (attach sn e) r)) = add_mset e (mset (names r))"
        using names_update_at[of "attach sn e" x e p r, OF names_attach[OF s(3) px(4)] px(1,2)] .
      with px eqs True Some s node_at_update_at[OF px(2), of "attach sn e"]
      have "side = Some s \<and> sn = lower (strip s) \<and> (sn = ''left'' \<or> sn = ''right'')
              \<and> root self = Some r \<and> set p \<subseteq> {''left'', ''right''}
              \<and> node_at p r = Some x \<and> name x = m \<and> getattr x sn = None
              \<and> self' = self\<lparr>root := Some (update_at p (attach sn e) r)\<rparr>
              \<and> node_at p (update_at p (attach sn e) r) = Some (attach sn e x)
              \<and> attach sn e x = setattr x sn (EmployeeNode e None None)
              \<and> mset (names (update_at p (attach sn e) r)) = add_mset e (mset (names r))"
        by (simp add: attach_def)
      then have "\<exists>s sn r p x. side = Some s \<and> sn = lower (strip s) \<and> (sn = ''left'' \<or> sn = ''right'')
              \<and> root self = Some r \<and> set p \<subseteq> {''left'', ''right''}
              \<and> node_at p r = Some x \<and> name x = m \<and> getattr x sn = None
              \<and> self' = self\<lparr>root := Some (update_at p (attach sn e) r)\<rparr>
              \<and> node_at p (update_at p (attach sn e) r) = Some (attach sn e x)
              \<and> attach sn e x = setattr x sn (EmployeeNode e None None)
              \<and> mset (names (update_at p (attach sn e) r)) = add_mset e (mset (names r))"
        by blast
      with eqs True show ?thesis by simp
    qed
  qed
qed

subsection \<open>Printing\<close>

lemma print_tree_None_Suc: "print_tree self None (Suc k) = []"
  by (simp only: print_tree.simps[of self None "Suc k"] option.case nat.distinct if_False)

lemma print_tree_Some_node:
  "print_tree self (Some (EmployeeNode n l r)) level =
     print_line level n # print_tree self l (Suc level) @ print_tree self r (Suc level)"
  by (simp only: print_tree.simps[of self "Some (EmployeeNode n l r)" level] option.case
        EmployeeNode.sel Suc_eq_plus1)

lemma print_tree_None_0:
  "print_tree self None 0 =
     (case root self of None \<Rightarrow> [''(empty team)''] | Some nd \<Rightarrow> print_tree self (Some nd) 0)"
  by (cases "root self")
     (simp_all only: print_tree.simps[of self None 0] print_tree.simps[of self "Some _" 0]
        option.case if_True refl)

lemma print_tree_Some:
  "print_tree self (Some nd) level =
     map (\<lambda>(p, x). print_line (level + length p) (name x)) (preorder nd)"
proof (induction nd arbitrary: level)
  case (EmployeeNode n l r)
  have L: "print_tree self l (Suc level) =
      map (\<lambda>(p, x). print_line (level + length p) (name x))
        (map (\<lambda>(p, x). (''left'' # p, x)) (case l of None \<Rightarrow> [] | Some c \<Rightarrow> preorder c))"
  proof (cases l)
    case None then show ?thesis by (simp add: print_tree_None_Suc del: print_tree.simps)
  next
    case (Some c)
    with EmployeeNode.IH(1)[of c "Suc level"] show ?thesis
      by (simp add: case_prod_unfold comp_def del: print_tree.simps)
  qed
  have R: "print_tree self r (Suc level) =
      map (\<lambda>(p, x). print_line (level + length p) (name x))
        (map (\<lambda>(p, x). (''right'' # p, x)) (case r of None \<Rightarrow> [] | Some c \<Rightarrow> preorder c))"
  proof (cases r)
    case None then show ?thesis by (simp add: print_tree_None_Suc del: print_tree.simps)
  next
    case (Some c)
    with EmployeeNode.IH(2)[of c "Suc level"] show ?thesis
      by (simp add: case_prod_unfold comp_def del: print_tree.simps)
  qed
  show ?case
    by (simp only: print_tree_Some_node L R preorder.simps list.map map_append
          prod.case list.size add_0_right EmployeeNode.sel)
qed

lemma print_tree_root:
  "print_tree self None 0 =
     (case root self of None \<Rightarrow> [''(empty team)''] | Some nd \<Rightarrow> listing (preorder nd))"
  by (simp add: print_tree_None_0 print_tree_Some listing_def del: print_tree.simps
        split: option.splits)

subsection \<open>The pre-order list and the positions\<close>

lemma preorder_fst_node:
  "map fst (preorder (EmployeeNode n l r)) =
     [] # map ((#) ''left'') (case l of None \<Rightarrow> [] | Some c \<Rightarrow> map fst (preorder c))
        @ map ((#) ''right'') (case r of None \<Rightarrow> [] | Some c \<Rightarrow> map fst (preorder c))"
  by (simp add: case_prod_unfold comp_def split: option.splits)

lemma preorder_distinct: "distinct (map fst (preorder node))"
proof (induction node)
  case (EmployeeNode n l r)
  have dl: "distinct (case l of None \<Rightarrow> [] | Some c \<Rightarrow> map fst (preorder c))"
    using EmployeeNode.IH(1) by (cases l) simp_all
  have dr: "distinct (case r of None \<Rightarrow> [] | Some c \<Rightarrow> map fst (preorder c))"
    using EmployeeNode.IH(2) by (cases r) simp_all
  show ?case
    unfolding preorder_fst_node using dl dr
    by (auto simp: distinct_map)
qed

lemma preorder_complete:
  "set p \<subseteq> {''left'', ''right''} \<Longrightarrow> node_at p node = Some x \<Longrightarrow> (p, x) \<in> set (preorder node)"
proof (induction p arbitrary: node)
  case Nil
  then show ?case by (cases node) auto
next
  case (Cons a p)
  obtain n l r where node: "node = EmployeeNode n l r" by (cases node)
  from Cons.prems(1) consider "a = ''left''" | "a = ''right''" by auto
  then show ?case
  proof cases
    case 1
    with Cons.prems(2) node obtain c where c: "l = Some c" "node_at p c = Some x"
      by (auto split: option.splits)
    with Cons.IH[of c] Cons.prems(1) have "(p, x) \<in> set (preorder c)" by simp
    with 1 node c show ?thesis by force
  next
    case 2
    with Cons.prems(2) node obtain c where c: "r = Some c" "node_at p c = Some x"
      by (auto split: option.splits)
    with Cons.IH[of c] Cons.prems(1) have "(p, x) \<in> set (preorder c)" by simp
    with 2 node c show ?thesis by force
  qed
qed

subsection \<open>Sequences of calls\<close>

lemma run_inserts_names:
  "root self = Some r0 \<Longrightarrow> all_succeed self calls \<Longrightarrow>
   \<exists>r. root (run_inserts self calls) = Some r
       \<and> mset (names r) = mset (names r0) + mset (map (\<lambda>(m, e, s). e) calls)"
proof (induction calls arbitrary: self r0)
  case Nil
  then show ?case by simp
next
  case (Cons c calls)
  obtain m e s where c: "c = (m, e, s)" by (cases c)
  obtain ok self' out where res: "TeamTree_insert self m e s = (ok, self', out)"
    by (cases "TeamTree_insert self m e s")
  from Cons.prems(2) c res have ok: "ok" and rest: "all_succeed self' calls" by simp_all
  from TeamTree_insert_effect[OF res] ok Cons.prems(1)
  obtain r1 where r1: "root self' = Some r1" "mset (names r1) = add_mset e (mset (names r0))"
    by auto
  from Cons.IH[OF r1(1) rest] obtain r where
    "root (run_inserts self' calls) = Some r"
    "mset (names r) = mset (names r1) + mset (map (\<lambda>(m, e, s). e) calls)" by auto
  with r1 c res show ?case by simp
qed

lemma TeamTree_insert_preserves:
  assumes "root self = Some r"
  shows "\<exists>r'. root (fst (snd (TeamTree_insert self m e side))) = Some r'
           \<and> (\<forall>p x. node_at p r = Some x \<longrightarrow> (\<exists>x'. node_at p r' = Some x' \<and> name x' = name x))"
proof -
  obtain ok self' out where res: "TeamTree_insert self m e side = (ok, self', out)"
    by (cases "TeamTree_insert self m e side")
  show ?thesis
  proof (cases ok)
    case False
    with TeamTree_insert_effect[OF res] have "self' = self" by simp
    with res assms show ?thesis by simp
  next
    case True
    with TeamTree_insert_effect[OF res] assms obtain sn q y where
      q: "node_at q r = Some y" "getattr y sn = None"
         "self' = self\<lparr>root := Some (update_at q (attach sn e) r)\<rparr>" by auto
    have "\<forall>p x. node_at p r = Some x \<longrightarrow>
            (\<exists>x'. node_at p (update_at q (attach sn e) r) = Some x' \<and> name x' = name x)"
      using node_at_attach_preserved[OF q(1,2)] by blast
    with q(3) res show ?thesis by simp
  qed
qed

lemma run_calls_preserves:
  "root self = Some r \<Longrightarrow>
   \<exists>r'. root (run_calls self calls) = Some r'
      \<and> (\<forall>p x. node_at p r = Some x \<longrightarrow> (\<exists>x'. node_at p r' = Some x' \<and> name x' = name x))"
proof (induction calls arbitrary: self r)
  case Nil
  then show ?case by simp
next
  case (Cons c calls)
  show ?case
  proof (cases c)
    case Render
    with Cons.IH[OF Cons.prems] show ?thesis by simp
  next
    case (Insert m e side)
    from TeamTree_insert_preserves[OF Cons.prems, of m e side] obtain r1 where
      r1: "root (fst (snd (TeamTree_insert self m e side))) = Some r1"
          "\<forall>p x. node_at p r = Some x \<longrightarrow> (\<exists>x'. node_at p r1 = Some x' \<and> name x' = name x)"
      by blast
    from Cons.IH[OF r1(1)] obtain r' where
      r': "root (run_calls (fst (snd (TeamTree_insert self m e side))) calls) = Some r'"
          "\<forall>p x. node_at p r1 = Some x \<longrightarrow> (\<exists>x'. node_at p r' = Some x' \<and> name x' = name x)"
      by blast
    have "\<forall>p x. node_at p r = Some x \<longrightarrow> (\<exists>x'. node_at p r' = Some x' \<and> name x' = name x)"
    proof (intro allI impI)
      fix p x assume "node_at p r = Some x"
      with r1(2) obtain x1 where "node_at p r1 = Some x1" "name x1 = name x" by blast
      with r'(2) show "\<exists>x'. node_at p r' = Some x' \<and> name x' = name x" by fastforce
    qed
    with r'(1) Insert show ?thesis by simp
  qed
qed

subsection \<open>Counting\<close>

lemma T_insert_node_valid:
  assumes "lower (strip s) = sn" and "sn = ''left'' \<or> sn = ''right''"
  shows "T_insert_node m e (Some s) b (EmployeeNode n l r) =
     (if n = m then 1
      else 1 + (case l of None \<Rightarrow> 0 | Some c \<Rightarrow> T_insert_node m e (Some sn) False c)
             + (if fst (insert_child m e sn l) then 0
                else (case r of None \<Rightarrow> 0 | Some c \<Rightarrow> T_insert_node m e (Some sn) False c)))"
proof -
  have mem: "(sn \<notin> set [''left'', ''right'']) = False" using assms(2) by auto
  show ?thesis
    unfolding T_insert_node.simps option.case Let_def assms(1) mem if_False ..
qed

lemma T_insert_node_invalid:
  "lower (strip s) \<noteq> ''left'' \<Longrightarrow> lower (strip s) \<noteq> ''right'' \<Longrightarrow>
   T_insert_node m e (Some s) b node = 1"
  by (cases node) (simp add: T_insert_node.simps)

lemma T_insert_node_None: "T_insert_node m e None b node = 1"
  by (cases node) (simp add: T_insert_node.simps)

lemma length_preorder_node:
  "length (preorder (EmployeeNode n l r)) =
     1 + (case l of None \<Rightarrow> 0 | Some c \<Rightarrow> length (preorder c))
       + (case r of None \<Rightarrow> 0 | Some c \<Rightarrow> length (preorder c))"
  by (simp split: option.splits)

lemma T_insert_node_le:
  assumes v: "sn = ''left'' \<or> sn = ''right''"
  shows "T_insert_node m e (Some sn) b node \<le> length (preorder node)"
proof (induction node arbitrary: b)
  case (EmployeeNode n l r)
  note eq = T_insert_node_valid[OF norm_idem[OF v] v]
  have L: "(case l of None \<Rightarrow> 0 | Some c \<Rightarrow> T_insert_node m e (Some sn) False c)
            \<le> (case l of None \<Rightarrow> 0 | Some c \<Rightarrow> length (preorder c))"
    using EmployeeNode.IH(1) by (cases l) simp_all
  have R: "(case r of None \<Rightarrow> 0 | Some c \<Rightarrow> T_insert_node m e (Some sn) False c)
            \<le> (case r of None \<Rightarrow> 0 | Some c \<Rightarrow> length (preorder c))"
    using EmployeeNode.IH(2) by (cases r) simp_all
  show ?case
    unfolding eq length_preorder_node using L R by (simp del: preorder.simps)
qed

lemma T_insert_node_norm:
  assumes "lower (strip s) = sn" and "sn = ''left'' \<or> sn = ''right''"
  shows "T_insert_node m e (Some s) b node = T_insert_node m e (Some sn) b node"
proof (cases node)
  case (EmployeeNode n l r)
  show ?thesis unfolding EmployeeNode
    by (simp only: T_insert_node_valid[OF assms] T_insert_node_valid[OF norm_idem[OF assms(2)] assms(2)])
qed

lemma length_preorder_pos: "0 < length (preorder node)"
  by (cases node) simp

lemma T_TeamTree_insert_le: "T_TeamTree_insert self m e side \<le> max 1 (num_nodes self)"
proof (cases "\<exists>s. side = Some s \<and> (lower (strip s) = ''left'' \<or> lower (strip s) = ''right'')")
  case False
  then have "T_TeamTree_insert self m e side = 1"
    by (cases side) (auto simp: T_TeamTree_insert_def)
  then show ?thesis by simp
next
  case True
  then obtain s sn where s: "side = Some s" "lower (strip s) = sn" "sn = ''left'' \<or> sn = ''right''"
    by auto
  show ?thesis
  proof (cases "root self")
    case None
    with s show ?thesis by (auto simp: T_TeamTree_insert_def)
  next
    case (Some r)
    from s have mem: "(lower (strip s) \<notin> set [''left'', ''right'']) = False" by auto
    from Some s have "T_TeamTree_insert self m e side = T_insert_node m e (Some sn) True r"
      unfolding T_TeamTree_insert_def s(1) option.case mem if_False
      by (simp add: T_insert_node_norm[OF s(2,3)])
    with T_insert_node_le[OF s(3), of m e True r] Some show ?thesis
      by (simp add: num_nodes_def)
  qed
qed

lemma T_print_tree_None_Suc: "T_print_tree self None (Suc k) = 1"
  by (simp only: T_print_tree.simps[of self None "Suc k"] option.case nat.distinct if_False)

lemma T_print_tree_Some_node:
  "T_print_tree self (Some (EmployeeNode n l r)) level =
     1 + T_print_tree self l (Suc level) + T_print_tree self r (Suc level)"
  by (simp only: T_print_tree.simps[of self "Some (EmployeeNode n l r)" level] option.case
        EmployeeNode.sel Suc_eq_plus1)

lemma T_print_tree_None_0:
  "T_print_tree self None 0 =
     (case root self of None \<Rightarrow> 1 | Some nd \<Rightarrow> T_print_tree self (Some nd) 0)"
  by (cases "root self")
     (simp_all only: T_print_tree.simps[of self None 0] T_print_tree.simps[of self "Some _" 0]
        option.case if_True refl)

lemma T_print_tree_Some:
  "T_print_tree self (Some nd) level = 2 * length (preorder nd) + 1"
proof (induction nd arbitrary: level)
  case (EmployeeNode n l r)
  have L: "T_print_tree self l (Suc level) =
             2 * (case l of None \<Rightarrow> 0 | Some c \<Rightarrow> length (preorder c)) + 1"
    using EmployeeNode.IH(1)[of _ "Suc level"]
    by (cases l) (simp_all add: T_print_tree_None_Suc del: T_print_tree.simps)
  have R: "T_print_tree self r (Suc level) =
             2 * (case r of None \<Rightarrow> 0 | Some c \<Rightarrow> length (preorder c)) + 1"
    using EmployeeNode.IH(2)[of _ "Suc level"]
    by (cases r) (simp_all add: T_print_tree_None_Suc del: T_print_tree.simps)
  show ?case
    unfolding T_print_tree_Some_node L R length_preorder_node by simp
qed

lemma T_print_tree_root: "T_print_tree self None 0 = 2 * num_nodes self + 1"
  by (simp add: T_print_tree_None_0 T_print_tree_Some num_nodes_def del: T_print_tree.simps
        split: option.splits)

lemma length_print_tree: "length (print_tree self None 0) = max 1 (num_nodes self)"
proof (cases "root self")
  case None
  then show ?thesis by (simp add: print_tree_root num_nodes_def del: print_tree.simps)
next
  case (Some r)
  have "max 1 (length (preorder r)) = length (preorder r)"
    using length_preorder_pos[of r] by linarith
  with Some show ?thesis
    by (simp add: print_tree_root listing_def num_nodes_def del: print_tree.simps preorder.simps)
qed

subsection \<open>An accepted side is never reported as invalid\<close>



section \<open>The claims\<close>

text \<open>
  C3. Starting from a tree whose root is Alice: inserting Bob on the left of Alice
  succeeds; inserting Carol on the left of Alice then fails with the occupied-slot
  message naming Bob and leaves the tree as it is; inserting Dan on the right of Bob
  succeeds; inserting Frank under Eve fails with the manager-not-found message; and
  the tree then prints as Alice at depth 0, Bob at depth 1 and Dan at depth 2.
\<close>

theorem scenario_alice:
  "TeamTree_insert \<lparr>root = Some (EmployeeNode ''Alice'' None None)\<rparr> ''Alice'' ''Bob'' (Some ''left'')
     = (True, \<lparr>root = Some (EmployeeNode ''Alice'' (Some (EmployeeNode ''Bob'' None None)) None)\<rparr>, [])
   \<and> TeamTree_insert
       \<lparr>root = Some (EmployeeNode ''Alice'' (Some (EmployeeNode ''Bob'' None None)) None)\<rparr>
       ''Alice'' ''Carol'' (Some ''left'')
     = (False, \<lparr>root = Some (EmployeeNode ''Alice'' (Some (EmployeeNode ''Bob'' None None)) None)\<rparr>,
        [SlotOccupied ''Alice'' ''left'' ''Bob''])
   \<and> TeamTree_insert
       \<lparr>root = Some (EmployeeNode ''Alice'' (Some (EmployeeNode ''Bob'' None None)) None)\<rparr>
       ''Bob'' ''Dan'' (Some ''right'')
     = (True,
        \<lparr>root = Some (EmployeeNode ''Alice''
           (Some (EmployeeNode ''Bob'' None (Some (EmployeeNode ''Dan'' None None)))) None)\<rparr>, [])
   \<and> TeamTree_insert
       \<lparr>root = Some (EmployeeNode ''Alice''
           (Some (EmployeeNode ''Bob'' None (Some (EmployeeNode ''Dan'' None None)))) None)\<rparr>
       ''Eve'' ''Frank'' (Some ''left'')
     = (False,
        \<lparr>root = Some (EmployeeNode ''Alice''
           (Some (EmployeeNode ''Bob'' None (Some (EmployeeNode ''Dan'' None None)))) None)\<rparr>,
        [ManagerNotFound ''Eve''])
   \<and> print_tree
       \<lparr>root = Some (EmployeeNode ''Alice''
           (Some (EmployeeNode ''Bob'' None (Some (EmployeeNode ''Dan'' None None)))) None)\<rparr>
       None 0
     = [''- Alice'', ''  - Bob'', ''    - Dan'']"
  by (simp add: TeamTree_insert_left TeamTree_insert_right insert_node_left insert_node_right
        insert_child_Some attach_def print_line_def)


text \<open>
  C7 (amended). A call made while the root is absent fails and leaves the tree as it
  is; the message is the no-root message when the side normalises to "left" or
  "right", and the invalid-side message otherwise, because the side is checked first.
\<close>

theorem no_root_valid_side:
  "root self = None \<Longrightarrow>
   TeamTree_insert self m e side =
     (False, self,
      [if \<exists>s. side = Some s \<and> lower (strip s) \<in> {''left'', ''right''} then NoRoot else InvalidSide])"
  by (cases side) (auto simp: TeamTree_insert_def)

theorem no_root_valid_side_witness:
  "root \<lparr>root = None\<rparr> = None
   \<and> TeamTree_insert \<lparr>root = None\<rparr> ''Alice'' ''Bob'' (Some ''left'')
       = (False, \<lparr>root = None\<rparr>, [NoRoot])"
  using no_root_valid_side[of "\<lparr>root = None\<rparr>" "''Alice''" "''Bob''" "Some ''left''"]
  by (simp add: norm_left)

theorem no_root_invalid_side_counterexample:
  "root \<lparr>root = None\<rparr> = None
   \<and> snd (snd (TeamTree_insert \<lparr>root = None\<rparr> ''Alice'' ''Bob'' (Some ''up''))) \<noteq> [NoRoot]"
  by (simp add: TeamTree_insert_invalid norm_up)

text \<open>
  C10 (amended). \<^verbatim>\<open>insert\<close> does not validate the names: whenever the first node
  named \<open>m\<close> in pre-order has its requested slot empty, the call with a valid side
  returns \<^verbatim>\<open>True\<close>, prints nothing and puts a fresh leaf named \<open>e\<close> into that slot,
  whatever \<open>e\<close> is: the empty string and a name already in the tree are accepted.
\<close>

theorem first_match_empty_slot_accepts_any_name:
  assumes "root self = Some r" and "lower (strip s) = sn" and "sn = ''left'' \<or> sn = ''right''"
    and "first_match m r = Some (p, x)" and "getattr x sn = None"
  shows "TeamTree_insert self m e (Some s)
           = (True, self\<lparr>root := Some (update_at p (attach sn e) r)\<rparr>, [])
         \<and> node_at p r = Some x \<and> name x = m
         \<and> node_at p (update_at p (attach sn e) r) = Some (attach sn e x)
         \<and> getattr (attach sn e x) sn = Some (EmployeeNode e None None)"
proof -
  from first_match_node_at[OF assms(4)] have at: "node_at p r = Some x" "name x = m" by simp_all
  show ?thesis
    using assms(1) at node_at_update_at[OF at(1)]
    by (simp add: TeamTree_insert_valid[OF assms(2,3)]
          insert_node_first_match[OF assms(3,4,5)] getattr_attach)
qed

theorem first_match_empty_slot_accepts_any_name_witness:
  "TeamTree_insert \<lparr>root = Some (EmployeeNode ''Alice'' None None)\<rparr> ''Alice'' '''' (Some ''left'')
     = (True, \<lparr>root = Some (EmployeeNode ''Alice'' (Some (EmployeeNode '''' None None)) None)\<rparr>, [])
   \<and> TeamTree_insert \<lparr>root = Some (EmployeeNode ''Alice'' None None)\<rparr> ''Alice'' ''Alice'' (Some ''left'')
     = (True, \<lparr>root = Some (EmployeeNode ''Alice'' (Some (EmployeeNode ''Alice'' None None)) None)\<rparr>, [])"
  using first_match_empty_slot_accepts_any_name[of "\<lparr>root = Some (EmployeeNode ''Alice'' None None)\<rparr>"
          "EmployeeNode ''Alice'' None None" "''left''" "''left''" "''Alice''" "[]"
          "EmployeeNode ''Alice'' None None" "''''"]
        first_match_empty_slot_accepts_any_name[of "\<lparr>root = Some (EmployeeNode ''Alice'' None None)\<rparr>"
          "EmployeeNode ''Alice'' None None" "''left''" "''left''" "''Alice''" "[]"
          "EmployeeNode ''Alice'' None None" "''Alice''"]
  by (simp add: norm_left first_match_node attach_def)

theorem hidden_empty_slot_counterexample:
  "node_at [''left''] (EmployeeNode ''Alice'' (Some (EmployeeNode ''Alice'' None None)) None)
     = Some (EmployeeNode ''Alice'' None None)
   \<and> name (EmployeeNode ''Alice'' None None) = ''Alice''
   \<and> getattr (EmployeeNode ''Alice'' None None) ''left'' = None
   \<and> TeamTree_insert
       \<lparr>root = Some (EmployeeNode ''Alice'' (Some (EmployeeNode ''Alice'' None None)) None)\<rparr>
       ''Alice'' '''' (Some ''left'')
     = (False,
        \<lparr>root = Some (EmployeeNode ''Alice'' (Some (EmployeeNode ''Alice'' None None)) None)\<rparr>,
        [SlotOccupied ''Alice'' ''left'' ''Alice''])"
  by (simp add: TeamTree_insert_left insert_node_left)

text \<open>
  C1 (the code departs from it). In the tree Alice(left = Bob(left = Carol),
  right = Bob) the first node named Bob in pre-order is the left child, and its left
  slot holds Carol. The call insert("Bob", "Dan", "left") prints the occupied-slot
  message for it, goes on to the right subtree, attaches Dan to the second Bob and
  returns \<^verbatim>\<open>True\<close>.
\<close>

theorem search_continues_after_occupied_match:
  "first_match ''Bob''
     (EmployeeNode ''Alice''
        (Some (EmployeeNode ''Bob'' (Some (EmployeeNode ''Carol'' None None)) None))
        (Some (EmployeeNode ''Bob'' None None)))
     = Some ([''left''], EmployeeNode ''Bob'' (Some (EmployeeNode ''Carol'' None None)) None)
   \<and> getattr (EmployeeNode ''Bob'' (Some (EmployeeNode ''Carol'' None None)) None) ''left''
     = Some (EmployeeNode ''Carol'' None None)
   \<and> TeamTree_insert
       \<lparr>root = Some (EmployeeNode ''Alice''
          (Some (EmployeeNode ''Bob'' (Some (EmployeeNode ''Carol'' None None)) None))
          (Some (EmployeeNode ''Bob'' None None)))\<rparr>
       ''Bob'' ''Dan'' (Some ''left'')
     = (True,
        \<lparr>root = Some (EmployeeNode ''Alice''
          (Some (EmployeeNode ''Bob'' (Some (EmployeeNode ''Carol'' None None)) None))
          (Some (EmployeeNode ''Bob'' (Some (EmployeeNode ''Dan'' None None)) None)))\<rparr>,
        [SlotOccupied ''Bob'' ''left'' ''Carol''])"
  by (simp add: TeamTree_insert_left insert_node_left insert_child_Some attach_def
        first_match_node first_match_child_def)

text \<open>
  C2 (the code departs from it). In the tree Alice(left = Bob(left = Carol)) a node
  named Bob exists, and the call insert("Bob", "Dan", "left") prints the
  occupied-slot message and then the manager-not-found message.
\<close>

theorem not_found_reported_for_existing_manager:
  "''Bob'' \<in> set (names (EmployeeNode ''Alice''
        (Some (EmployeeNode ''Bob'' (Some (EmployeeNode ''Carol'' None None)) None)) None))
   \<and> TeamTree_insert
       \<lparr>root = Some (EmployeeNode ''Alice''
          (Some (EmployeeNode ''Bob'' (Some (EmployeeNode ''Carol'' None None)) None)) None)\<rparr>
       ''Bob'' ''Dan'' (Some ''left'')
     = (False,
        \<lparr>root = Some (EmployeeNode ''Alice''
          (Some (EmployeeNode ''Bob'' (Some (EmployeeNode ''Carol'' None None)) None)) None)\<rparr>,
        [SlotOccupied ''Bob'' ''left'' ''Carol'', ManagerNotFound ''Bob''])"
  by (simp add: TeamTree_insert_left insert_node_left insert_child_Some names_node)

text \<open>
  C4. A call that returns \<^verbatim>\<open>True\<close> has filled exactly one empty slot: some node
  named \<open>m\<close> had the requested slot empty, and the new tree is the old one with a
  fresh leaf named \<open>e\<close> in that slot of that node, every other node and link as
  before (so there is one name more, \<open>e\<close>). A call that returns \<^verbatim>\<open>False\<close>, for
  whichever reason, leaves the tree as it was.
\<close>

theorem insert_frame:
  assumes "TeamTree_insert self m e side = (ok, self', out)"
  shows "(ok \<longrightarrow>
           (\<exists>s sn r p x. side = Some s \<and> sn = lower (strip s) \<and> (sn = ''left'' \<or> sn = ''right'')
              \<and> root self = Some r \<and> set p \<subseteq> {''left'', ''right''}
              \<and> node_at p r = Some x \<and> name x = m \<and> getattr x sn = None
              \<and> self' = self\<lparr>root := Some (update_at p (attach sn e) r)\<rparr>
              \<and> node_at p (update_at p (attach sn e) r) = Some (attach sn e x)
              \<and> attach sn e x = setattr x sn (EmployeeNode e None None)
              \<and> mset (names (update_at p (attach sn e) r)) = add_mset e (mset (names r))))
       \<and> (\<not> ok \<longrightarrow> self' = self)"
  using assms by (rule TeamTree_insert_effect)

theorem insert_frame_witness:
  "TeamTree_insert \<lparr>root = Some (EmployeeNode ''Alice'' None None)\<rparr> ''Alice'' ''Bob'' (Some ''left'')
     = (True, \<lparr>root = Some (EmployeeNode ''Alice'' (Some (EmployeeNode ''Bob'' None None)) None)\<rparr>, [])
   \<and> (\<exists>p x. set p \<subseteq> {''left'', ''right''}
          \<and> node_at p (EmployeeNode ''Alice'' None None) = Some x \<and> name x = ''Alice''
          \<and> getattr x ''left'' = None
          \<and> \<lparr>root = Some (EmployeeNode ''Alice'' (Some (EmployeeNode ''Bob'' None None)) None)\<rparr>
              = \<lparr>root = Some (update_at p (attach ''left'' ''Bob'') (EmployeeNode ''Alice'' None None))\<rparr>)
   \<and> TeamTree_insert
       \<lparr>root = Some (EmployeeNode ''Alice'' (Some (EmployeeNode ''Bob'' None None)) None)\<rparr>
       ''Alice'' ''Carol'' (Some ''left'')
     = (False, \<lparr>root = Some (EmployeeNode ''Alice'' (Some (EmployeeNode ''Bob'' None None)) None)\<rparr>,
        [SlotOccupied ''Alice'' ''left'' ''Bob''])"
proof -
  have h1: "TeamTree_insert \<lparr>root = Some (EmployeeNode ''Alice'' None None)\<rparr> ''Alice'' ''Bob'' (Some ''left'')
     = (True, \<lparr>root = Some (EmployeeNode ''Alice'' (Some (EmployeeNode ''Bob'' None None)) None)\<rparr>, [])"
    by (simp add: TeamTree_insert_left insert_node_left attach_def)
  have h2: "TeamTree_insert
       \<lparr>root = Some (EmployeeNode ''Alice'' (Some (EmployeeNode ''Bob'' None None)) None)\<rparr>
       ''Alice'' ''Carol'' (Some ''left'')
     = (False, \<lparr>root = Some (EmployeeNode ''Alice'' (Some (EmployeeNode ''Bob'' None None)) None)\<rparr>,
        [SlotOccupied ''Alice'' ''left'' ''Bob''])"
    by (simp add: TeamTree_insert_left insert_node_left)
  from insert_frame[OF h1] have
    "\<exists>p x. set p \<subseteq> {''left'', ''right''}
          \<and> node_at p (EmployeeNode ''Alice'' None None) = Some x \<and> name x = ''Alice''
          \<and> getattr x ''left'' = None
          \<and> \<lparr>root = Some (EmployeeNode ''Alice'' (Some (EmployeeNode ''Bob'' None None)) None)\<rparr>
              = \<lparr>root = Some (update_at p (attach ''left'' ''Bob'') (EmployeeNode ''Alice'' None None))\<rparr>"
    by (auto simp: norm_left)
  with h1 h2 show ?thesis by blast
qed

text \<open>
  C6. After any sequence of inserts that all returned \<^verbatim>\<open>True\<close>, started on a tree
  with a root, \<^verbatim>\<open>print_tree\<close> prints the pre-order list of the tree (node, left
  subtree, right subtree), one line per entry: two spaces for each step of the
  entry's position, which is its distance from the root, then "- " and the name. The entries are the
  nodes at their positions, no position occurs twice and every position of the tree
  occurs, and the names listed are those of the starting tree together with the
  inserted employee names, each as often as it was inserted. On a tree without a root
  the output is the single line "(empty team)". A line is one \<^verbatim>\<open>print\<close> call.
\<close>

theorem render_after_inserts:
  "(root self = None \<longrightarrow> print_tree self None 0 = [''(empty team)''])
   \<and> (\<forall>r0. root self = Some r0 \<and> all_succeed self calls \<longrightarrow>
        (\<exists>r. root (run_inserts self calls) = Some r
           \<and> print_tree (run_inserts self calls) None 0
               = map (\<lambda>(p, x). concat (replicate (length p) ''  '') @ ''- '' @ name x) (preorder r)
           \<and> (\<forall>(p, x) \<in> set (preorder r). node_at p r = Some x)
           \<and> distinct (map fst (preorder r))
           \<and> (\<forall>p x. set p \<subseteq> {''left'', ''right''} \<and> node_at p r = Some x
                  \<longrightarrow> (p, x) \<in> set (preorder r))
           \<and> mset (names r) = mset (names r0) + mset (map (\<lambda>(m, e, s). e) calls)))"
proof (intro conjI allI impI)
  assume "root self = None"
  then show "print_tree self None 0 = [''(empty team)'']"
    by (simp add: print_tree_root del: print_tree.simps)
next
  fix r0 assume a: "root self = Some r0 \<and> all_succeed self calls"
  with run_inserts_names[of self r0 calls] obtain r where
    r: "root (run_inserts self calls) = Some r"
       "mset (names r) = mset (names r0) + mset (map (\<lambda>(m, e, s). e) calls)" by auto
  have "print_tree (run_inserts self calls) None 0
          = map (\<lambda>(p, x). concat (replicate (length p) ''  '') @ ''- '' @ name x) (preorder r)"
    using r(1) by (simp add: print_tree_root listing_def print_line_def del: print_tree.simps)
  moreover have "\<forall>(p, x) \<in> set (preorder r). node_at p r = Some x"
    using preorder_node_at by auto
  moreover have "\<forall>p x. set p \<subseteq> {''left'', ''right''} \<and> node_at p r = Some x
                  \<longrightarrow> (p, x) \<in> set (preorder r)"
    using preorder_complete by blast
  ultimately show "\<exists>r. root (run_inserts self calls) = Some r
           \<and> print_tree (run_inserts self calls) None 0
               = map (\<lambda>(p, x). concat (replicate (length p) ''  '') @ ''- '' @ name x) (preorder r)
           \<and> (\<forall>(p, x) \<in> set (preorder r). node_at p r = Some x)
           \<and> distinct (map fst (preorder r))
           \<and> (\<forall>p x. set p \<subseteq> {''left'', ''right''} \<and> node_at p r = Some x
                  \<longrightarrow> (p, x) \<in> set (preorder r))
           \<and> mset (names r) = mset (names r0) + mset (map (\<lambda>(m, e, s). e) calls)"
    using r preorder_distinct[of r] by blast
qed

theorem render_after_inserts_witness:
  "root \<lparr>root = Some (EmployeeNode ''Alice'' None None)\<rparr> = Some (EmployeeNode ''Alice'' None None)
   \<and> all_succeed \<lparr>root = Some (EmployeeNode ''Alice'' None None)\<rparr>
         [(''Alice'', ''Bob'', Some ''left''), (''Bob'', ''Dan'', Some ''right'')]
   \<and> print_tree (run_inserts \<lparr>root = Some (EmployeeNode ''Alice'' None None)\<rparr>
         [(''Alice'', ''Bob'', Some ''left''), (''Bob'', ''Dan'', Some ''right'')]) None 0
       = [''- Alice'', ''  - Bob'', ''    - Dan'']
   \<and> (\<exists>r. root (run_inserts \<lparr>root = Some (EmployeeNode ''Alice'' None None)\<rparr>
                    [(''Alice'', ''Bob'', Some ''left''), (''Bob'', ''Dan'', Some ''right'')]) = Some r
          \<and> mset (names r) = {#''Alice'', ''Bob'', ''Dan''#})
   \<and> root \<lparr>root = None\<rparr> = None
   \<and> print_tree \<lparr>root = None\<rparr> None 0 = [''(empty team)'']"
proof -
  have h: "root \<lparr>root = Some (EmployeeNode ''Alice'' None None)\<rparr> = Some (EmployeeNode ''Alice'' None None)
     \<and> all_succeed \<lparr>root = Some (EmployeeNode ''Alice'' None None)\<rparr>
         [(''Alice'', ''Bob'', Some ''left''), (''Bob'', ''Dan'', Some ''right'')]"
    by (simp add: TeamTree_insert_left TeamTree_insert_right insert_node_left insert_node_right
          insert_child_Some attach_def)
  have run: "root (run_inserts \<lparr>root = Some (EmployeeNode ''Alice'' None None)\<rparr>
                    [(''Alice'', ''Bob'', Some ''left''), (''Bob'', ''Dan'', Some ''right'')])
      = Some (EmployeeNode ''Alice''
           (Some (EmployeeNode ''Bob'' None (Some (EmployeeNode ''Dan'' None None)))) None)"
    by (simp add: TeamTree_insert_left TeamTree_insert_right insert_node_left insert_node_right
          insert_child_Some attach_def)
  from render_after_inserts[of "\<lparr>root = Some (EmployeeNode ''Alice'' None None)\<rparr>"
         "[(''Alice'', ''Bob'', Some ''left''), (''Bob'', ''Dan'', Some ''right'')]",
         THEN conjunct2, rule_format, OF h]
  obtain r where r:
    "root (run_inserts \<lparr>root = Some (EmployeeNode ''Alice'' None None)\<rparr>
                    [(''Alice'', ''Bob'', Some ''left''), (''Bob'', ''Dan'', Some ''right'')]) = Some r"
    "print_tree (run_inserts \<lparr>root = Some (EmployeeNode ''Alice'' None None)\<rparr>
                    [(''Alice'', ''Bob'', Some ''left''), (''Bob'', ''Dan'', Some ''right'')]) None 0
              = map (\<lambda>(p, x). concat (replicate (length p) ''  '') @ ''- '' @ name x) (preorder r)"
    "mset (names r) = mset (names (EmployeeNode ''Alice'' None None))
        + mset (map (\<lambda>(m, e, s). e) [(''Alice'', ''Bob'', Some ''left''), (''Bob'', ''Dan'', Some ''right'')])"
    by blast
  from r(1) run have req: "r = EmployeeNode ''Alice''
           (Some (EmployeeNode ''Bob'' None (Some (EmployeeNode ''Dan'' None None)))) None"
    by simp
  have pre: "map (\<lambda>(p, x). concat (replicate (length p) ''  '') @ ''- '' @ name x)
        (preorder (EmployeeNode ''Alice''
           (Some (EmployeeNode ''Bob'' None (Some (EmployeeNode ''Dan'' None None)))) None))
      = [''- Alice'', ''  - Bob'', ''    - Dan'']"
    by simp
  from r(2) req pre have lines:
    "print_tree (run_inserts \<lparr>root = Some (EmployeeNode ''Alice'' None None)\<rparr>
         [(''Alice'', ''Bob'', Some ''left''), (''Bob'', ''Dan'', Some ''right'')]) None 0
       = [''- Alice'', ''  - Bob'', ''    - Dan'']"
    by (simp only:)
  from r(3) have m: "mset (names r) = {#''Alice'', ''Bob'', ''Dan''#}" by (simp add: names_node)
  from r(1) m have ex:
    "\<exists>r. root (run_inserts \<lparr>root = Some (EmployeeNode ''Alice'' None None)\<rparr>
                    [(''Alice'', ''Bob'', Some ''left''), (''Bob'', ''Dan'', Some ''right'')]) = Some r
          \<and> mset (names r) = {#''Alice'', ''Bob'', ''Dan''#}"
    by blast
  have n: "root \<lparr>root = None\<rparr> = None" by simp
  from render_after_inserts[of "\<lparr>root = None\<rparr>" "[]", THEN conjunct1, rule_format, OF n]
  have pn: "print_tree \<lparr>root = None\<rparr> None 0 = [''(empty team)'']" .
  show ?thesis
    by (rule conjI[OF conjunct1[OF h] conjI[OF conjunct2[OF h]
          conjI[OF lines conjI[OF ex conjI[OF n pn]]]]])
qed

text \<open>
  C8. Once the tree has a root it keeps one through any sequence of \<^verbatim>\<open>insert\<close>
  and \<^verbatim>\<open>print_tree\<close> calls: the root keeps its name, every position that held a
  node still holds a node of the same name, and \<^verbatim>\<open>print_tree\<close> never prints the
  empty-team line again. \<^verbatim>\<open>print_tree\<close> itself leaves the tree as it is and always
  returns its lines, at least one.
\<close>

theorem root_and_nodes_kept:
  "(root self = Some r \<longrightarrow>
      (\<exists>r'. root (run_calls self calls) = Some r' \<and> name r' = name r
         \<and> (\<forall>p x. node_at p r = Some x \<longrightarrow> (\<exists>x'. node_at p r' = Some x' \<and> name x' = name x))
         \<and> print_tree (run_calls self calls) None 0
             = map (\<lambda>(p, x). print_line (length p) (name x)) (preorder r')))
   \<and> run_calls self (Render # calls) = run_calls self calls
   \<and> length (print_tree self None 0) = max 1 (num_nodes self)"
proof (intro conjI impI)
  assume "root self = Some r"
  from run_calls_preserves[OF this, of calls] obtain r' where
    r': "root (run_calls self calls) = Some r'"
        "\<forall>p x. node_at p r = Some x \<longrightarrow> (\<exists>x'. node_at p r' = Some x' \<and> name x' = name x)"
    by blast
  from r'(2)[rule_format, of "[]" r] have "name r' = name r" by simp
  moreover have "print_tree (run_calls self calls) None 0
             = map (\<lambda>(p, x). print_line (length p) (name x)) (preorder r')"
    using r'(1) by (simp add: print_tree_root listing_def del: print_tree.simps)
  ultimately show "\<exists>r'. root (run_calls self calls) = Some r' \<and> name r' = name r
         \<and> (\<forall>p x. node_at p r = Some x \<longrightarrow> (\<exists>x'. node_at p r' = Some x' \<and> name x' = name x))
         \<and> print_tree (run_calls self calls) None 0
             = map (\<lambda>(p, x). print_line (length p) (name x)) (preorder r')"
    using r' by blast
next
  show "run_calls self (Render # calls) = run_calls self calls" by simp
next
  show "length (print_tree self None 0) = max 1 (num_nodes self)" by (rule length_print_tree)
qed

theorem root_and_nodes_kept_witness:
  "root \<lparr>root = Some (EmployeeNode ''Alice'' None None)\<rparr> = Some (EmployeeNode ''Alice'' None None)
   \<and> (\<exists>r'. root (run_calls \<lparr>root = Some (EmployeeNode ''Alice'' None None)\<rparr>
                     [Insert ''Alice'' ''Bob'' (Some ''left''), Render,
                      Insert ''Eve'' ''Frank'' (Some ''left'')]) = Some r'
           \<and> name r' = ''Alice'')"
proof -
  have h: "root \<lparr>root = Some (EmployeeNode ''Alice'' None None)\<rparr> = Some (EmployeeNode ''Alice'' None None)"
    by simp
  from root_and_nodes_kept[of "\<lparr>root = Some (EmployeeNode ''Alice'' None None)\<rparr>"
         "EmployeeNode ''Alice'' None None"
         "[Insert ''Alice'' ''Bob'' (Some ''left''), Render, Insert ''Eve'' ''Frank'' (Some ''left'')]",
         THEN conjunct1, rule_format, OF h]
  obtain r' where
    "root (run_calls \<lparr>root = Some (EmployeeNode ''Alice'' None None)\<rparr>
                     [Insert ''Alice'' ''Bob'' (Some ''left''), Render,
                      Insert ''Eve'' ''Frank'' (Some ''left'')]) = Some r'"
    "name r' = name (EmployeeNode ''Alice'' None None)"
    by blast
  then have "\<exists>r'. root (run_calls \<lparr>root = Some (EmployeeNode ''Alice'' None None)\<rparr>
                     [Insert ''Alice'' ''Bob'' (Some ''left''), Render,
                      Insert ''Eve'' ''Frank'' (Some ''left'')]) = Some r'
           \<and> name r' = ''Alice''" by simp
  with h show ?thesis by blast
qed

text \<open>
  C9. One call of \<^verbatim>\<open>insert\<close> opens at most as many frames as the tree has nodes
  (one frame when the tree is empty or the side is rejected), and one call of
  \<^verbatim>\<open>print_tree\<close> opens two calls per node and one more. Both functions are total:
  their recursion is on the subtrees of a finite tree.
\<close>

theorem calls_bounded_by_size:
  "T_TeamTree_insert self m e side \<le> max 1 (num_nodes self)
   \<and> T_print_tree self None 0 = 2 * num_nodes self + 1"
  using T_TeamTree_insert_le T_print_tree_root by simp

end
